theory Spec2Isabelle
  imports Complex_Main "HOL-Library.Word"
begin

section \<open>Voxel keys and key sets\<close>

text \<open>
  The updater in \<^verbatim>\<open>pointcloud_octomap_updater.cpp\<close> works on octomap voxel keys: an
  \<^verbatim>\<open>OcTreeKey\<close> holds three \<^verbatim>\<open>key_type\<close> components, and \<^verbatim>\<open>key_type\<close> is an unsigned
  16-bit integer. An \<^verbatim>\<open>octomap::KeySet\<close> is an unordered set of keys; it is modelled as the
  list of its elements in iteration order, with \<^verbatim>\<open>insert\<close> adding a key only when it is not
  yet a member and \<^verbatim>\<open>erase\<close> removing it. The iteration order of an unordered set is not
  specified; the results are stated for arbitrary lists or about the sets of their
  elements, so they do not depend on it.

  Log-odds (C++ \<^verbatim>\<open>float\<close>) and coordinates (C++ \<^verbatim>\<open>float\<close>/\<^verbatim>\<open>double\<close>) are idealised as
  real numbers: rounding is not part of the model.
\<close>

type_synonym key_type = "16 word"

type_synonym OcTreeKey = "key_type \<times> key_type \<times> key_type"

type_synonym point3d = "real \<times> real \<times> real"

type_synonym KeySet = "OcTreeKey list"

definition keyset_insert :: "OcTreeKey \<Rightarrow> KeySet \<Rightarrow> KeySet" where
  "keyset_insert k s = (if k \<in> set s then s else s @ [k])"

definition keyset_erase :: "OcTreeKey \<Rightarrow> KeySet \<Rightarrow> KeySet" where
  "keyset_erase k s = removeAll k s"

text \<open>\<^verbatim>\<open>s.insert(first, last)\<close>: every key of a range is inserted in turn.\<close>

fun keyset_insert_range :: "OcTreeKey list \<Rightarrow> KeySet \<Rightarrow> KeySet" where
  "keyset_insert_range [] s = s"
| "keyset_insert_range (k # ks) s = keyset_insert_range ks (keyset_insert k s)"

text \<open>The loop \<^verbatim>\<open>for (it = d.begin(); it != d.end(); ++it) s.erase(*it)\<close>.\<close>

fun keyset_erase_all :: "KeySet \<Rightarrow> KeySet \<Rightarrow> KeySet" where
  "keyset_erase_all [] s = s"
| "keyset_erase_all (k # ks) s = keyset_erase_all ks (keyset_erase k s)"

section \<open>The occupancy tree\<close>

text \<open>
  Modelled from the spec: the octomap \<^verbatim>\<open>OcTree\<close> class (\<^verbatim>\<open>coordToKey\<close>, \<^verbatim>\<open>keyToCoord\<close>,
  \<^verbatim>\<open>search\<close>, \<^verbatim>\<open>isNodeOccupied\<close>, \<^verbatim>\<open>updateNode\<close>, the change detection) is a library the
  updater calls; its code is not part of the source file. The record below is the
  OccupancyMap of the spec: a sparse mapping from voxel key to a log-odds value, the
  clamping range, the two fixed increments of \<^verbatim>\<open>updateNode(key, bool)\<close>, the decision
  threshold, and the state of the change tracker (armed or not, and the keys recorded
  since the last reset).
\<close>

record OcTree =
  resolution :: real
  clamping_thres_min :: real
  clamping_thres_max :: real
  prob_hit_log :: real
  prob_miss_log :: real
  occ_prob_thres_log :: real
  nodes :: "OcTreeKey \<rightharpoonup> real"
  use_change_detection :: bool
  changed_keys :: KeySet

text \<open>
  Modelled from the spec: the key codec of section 4.1. A key component is the floor of
  the coordinate divided by the resolution, shifted by the fixed offset \<open>tree_max_val\<close>
  (half of the 16-bit key range); \<open>keyToCoord\<close> returns the centre of the voxel. The
  unchecked \<open>coordToKey\<close> narrows to 16 bits; the checked one fails outside the key range.
\<close>

definition tree_max_val :: int where
  "tree_max_val = 32768"

definition coordToKey1 :: "OcTree \<Rightarrow> real \<Rightarrow> key_type" where
  "coordToKey1 t c = word_of_int (\<lfloor>c / resolution t\<rfloor> + tree_max_val)"

definition coordToKey :: "OcTree \<Rightarrow> point3d \<Rightarrow> OcTreeKey" where
  "coordToKey t p = (case p of (x, y, z) \<Rightarrow> (coordToKey1 t x, coordToKey1 t y, coordToKey1 t z))"

definition coordToKeyChecked1 :: "OcTree \<Rightarrow> real \<Rightarrow> key_type option" where
  "coordToKeyChecked1 t c =
     (let scaled_coord = \<lfloor>c / resolution t\<rfloor> + tree_max_val
      in if 0 \<le> scaled_coord \<and> scaled_coord < 2 * tree_max_val
         then Some (word_of_int scaled_coord) else None)"

definition coordToKeyChecked :: "OcTree \<Rightarrow> point3d \<Rightarrow> OcTreeKey option" where
  "coordToKeyChecked t p =
     (case p of (x, y, z) \<Rightarrow>
        (case coordToKeyChecked1 t x of None \<Rightarrow> None
         | Some a \<Rightarrow>
            (case coordToKeyChecked1 t y of None \<Rightarrow> None
             | Some b \<Rightarrow>
                (case coordToKeyChecked1 t z of None \<Rightarrow> None
                 | Some c \<Rightarrow> Some (a, b, c)))))"

definition keyToCoord1 :: "OcTree \<Rightarrow> key_type \<Rightarrow> real" where
  "keyToCoord1 t k = (real_of_int (uint k - tree_max_val) + 1 / 2) * resolution t"

definition keyToCoord :: "OcTree \<Rightarrow> OcTreeKey \<Rightarrow> point3d" where
  "keyToCoord t k = (case k of (a, b, c) \<Rightarrow> (keyToCoord1 t a, keyToCoord1 t b, keyToCoord1 t c))"

text \<open>
  Modelled from the spec: \<^verbatim>\<open>search\<close> by key returns the stored node or null (\<open>None\<close>, the
  voxel is UNKNOWN); \<^verbatim>\<open>search\<close> by coordinate encodes the point first and returns null when
  the point is outside the key range. A stored voxel is OCCUPIED when its log-odds
  exceeds the decision threshold, else FREE (section 3 of the spec).
\<close>

definition search :: "OcTree \<Rightarrow> OcTreeKey \<Rightarrow> real option" where
  "search t k = nodes t k"

definition search_coord :: "OcTree \<Rightarrow> point3d \<Rightarrow> real option" where
  "search_coord t p = (case coordToKeyChecked t p of None \<Rightarrow> None | Some k \<Rightarrow> search t k)"

definition isNodeOccupied :: "OcTree \<Rightarrow> real \<Rightarrow> bool" where
  "isNodeOccupied t v = (occ_prob_thres_log t < v)"

datatype occupancy = UNKNOWN | FREE | OCCUPIED

definition query :: "OcTree \<Rightarrow> OcTreeKey \<Rightarrow> occupancy" where
  "query t k =
     (case search t k of None \<Rightarrow> UNKNOWN
      | Some v \<Rightarrow> if isNodeOccupied t v then OCCUPIED else FREE)"

text \<open>
  Modelled from the spec: \<^verbatim>\<open>updateNode\<close> (section 4.2), an octomap function. The update
  adds a log-odds increment to the stored value and clamps the sum to the clamping
  range. A voxel that has no node yet is created first; the spec leaves the value of a
  new node open, and the model takes log-odds 0 (probability one half), as octomap does.
  The key is recorded by the change tracker, when it is armed, if the clamped value
  differs from what was stored before (a created node counts as a change).
  \<^verbatim>\<open>updateNode(key, bool)\<close> is the same update with the fixed hit or miss increment of the
  tree; \<^verbatim>\<open>updateNode(key, float)\<close> takes the increment as its argument.
\<close>

definition updateNodeLogOdds :: "OcTree \<Rightarrow> real \<Rightarrow> real \<Rightarrow> real" where
  "updateNodeLogOdds t v upd =
     (let s = v + upd
      in if s < clamping_thres_min t then clamping_thres_min t
         else if clamping_thres_max t < s then clamping_thres_max t
         else s)"

definition updateNode :: "OcTree \<Rightarrow> OcTreeKey \<Rightarrow> real \<Rightarrow> OcTree" where
  "updateNode t k log_odds_update =
     (let v = updateNodeLogOdds t (case nodes t k of None \<Rightarrow> 0 | Some old \<Rightarrow> old) log_odds_update
      in t\<lparr>nodes := (nodes t)(k \<mapsto> v),
           changed_keys :=
             (if use_change_detection t \<and> nodes t k \<noteq> Some v
              then keyset_insert k (changed_keys t) else changed_keys t)\<rparr>)"

definition updateNode_occ :: "OcTree \<Rightarrow> OcTreeKey \<Rightarrow> bool \<Rightarrow> OcTree" where
  "updateNode_occ t k occupied =
     updateNode t k (if occupied then prob_hit_log t else prob_miss_log t)"

text \<open>
  Modelled from the spec: the change tracker of section 4.5, part of the octomap tree.
  \<^verbatim>\<open>enableChangeDetection\<close> arms or disarms the recording, \<^verbatim>\<open>resetChangeDetection\<close> forgets
  the recorded keys.
\<close>

definition enableChangeDetection :: "OcTree \<Rightarrow> bool \<Rightarrow> OcTree" where
  "enableChangeDetection t enable = t\<lparr>use_change_detection := enable\<rparr>"

definition resetChangeDetection :: "OcTree \<Rightarrow> OcTree" where
  "resetChangeDetection t = t\<lparr>changed_keys := []\<rparr>"

section \<open>The point cloud updater\<close>

text \<open>
  The fields of \<^verbatim>\<open>PointCloudOctomapUpdater\<close> that \<^verbatim>\<open>cloudMsgCallback\<close>, \<^verbatim>\<open>trackChanges\<close>,
  \<^verbatim>\<open>findFrontier\<close> and \<^verbatim>\<open>mergeFrontier\<close> read or write. \<open>map_frame\<close> is the map frame of
  the monitor. The publishers and the filtered cloud only produce output and are left out.
\<close>

record Updater =
  max_update_rate :: real
  last_update_time :: real
  map_frame :: string
  tree :: OcTree
  frontier_tree :: OcTree
  changed_cell :: KeySet
  frontier_cell :: KeySet
  x_min :: real
  x_max :: real
  y_min :: real
  y_max :: real
  z_min :: real
  z_max :: real

subsection \<open>The neighbourhood of the frontier predicate\<close>

text \<open>
  Both \<^verbatim>\<open>findFrontier\<close> and \<^verbatim>\<open>mergeFrontier\<close> collect the neighbours of a key with the
  same three nested loops:
  \<^verbatim>\<open>for x in -1..1: for y in -1..1: for z in -1..1:
      if (x == 0 || y == 0 || z == 0) continue;
      neighbor_key = OcTreeKey(k[0]+x, k[1]+y, k[2]+z); push_back(keyToCoord(neighbor_key))\<close>
  The sums are computed on \<^verbatim>\<open>int\<close> and narrowed to 16 bits by the key constructor.
\<close>

definition neighbor_offsets :: "(int \<times> int \<times> int) list" where
  "neighbor_offsets =
     concat (map (\<lambda>x. concat (map (\<lambda>y. concat (map (\<lambda>z.
        if x = 0 \<or> y = 0 \<or> z = 0 then [] else [(x, y, z)]) [-1, 0, 1])) [-1, 0, 1])) [-1, 0, 1])"

definition neighbor_key :: "OcTreeKey \<Rightarrow> int \<times> int \<times> int \<Rightarrow> OcTreeKey" where
  "neighbor_key k d =
     (case k of (k0, k1, k2) \<Rightarrow>
        (case d of (x, y, z) \<Rightarrow> (k0 + word_of_int x, k1 + word_of_int y, k2 + word_of_int z)))"

definition neighbor_keys :: "OcTreeKey \<Rightarrow> OcTreeKey list" where
  "neighbor_keys k = map (neighbor_key k) neighbor_offsets"

definition cellNeighbor :: "OcTree \<Rightarrow> OcTreeKey \<Rightarrow> point3d list" where
  "cellNeighbor t k = map (keyToCoord t) (neighbor_keys k)"

text \<open>
  The second loop of the predicate looks every collected point up and sets
  \<^verbatim>\<open>unknownCellFlag\<close> for a missing node and \<^verbatim>\<open>freeCellFlag\<close> for a node that is not
  occupied. The pair is (unknownCellFlag, freeCellFlag).
\<close>

fun scan_neighbors :: "OcTree \<Rightarrow> point3d list \<Rightarrow> bool \<times> bool \<Rightarrow> bool \<times> bool" where
  "scan_neighbors t [] flags = flags"
| "scan_neighbors t (q # qs) flags =
     (case search_coord t q of
        None \<Rightarrow> scan_neighbors t qs (True, snd flags)
      | Some v \<Rightarrow>
          if \<not> isNodeOccupied t v then scan_neighbors t qs (fst flags, True)
          else scan_neighbors t qs flags)"

definition neighbor_flags :: "OcTree \<Rightarrow> OcTreeKey \<Rightarrow> bool \<times> bool" where
  "neighbor_flags t k = scan_neighbors t (cellNeighbor t k) (False, False)"

subsection \<open>Building the key sets of a frame\<close>

text \<open>
  A frame is what \<^verbatim>\<open>cloudMsgCallback\<close> receives and reads from its collaborators:
  the two readings of \<^verbatim>\<open>ros::Time::now()\<close> (one in the rate test, one stored), the frame
  id of the message, whether the transform into the map frame could be looked up, whether
  \<^verbatim>\<open>updateTransformCache\<close> succeeded, and the points the two strided loops visit, in
  order: each with its coordinates already transformed into the map frame (\<open>None\<close> when a
  coordinate of the sample is NaN) and its entry of the containment mask.
\<close>

datatype mask_value = INSIDE | OUTSIDE | CLIP

text \<open>
  Modelled from the spec: the field \<open>computeRayKeys\<close> is the RayTraversal of section 4.3,
  an octomap function, taken as a parameter of the frame: from the sensor origin of the
  frame to the given end point it yields the keys the segment crosses, or fails (\<open>None\<close>).
\<close>

record Cloud =
  now_check :: real
  now_update :: real
  frame_id :: string
  transform_found :: bool
  transform_cache_updated :: bool
  points :: "(point3d option \<times> mask_value) list"
  computeRayKeys :: "point3d \<Rightarrow> OcTreeKey list option"

text \<open>
  The first loop sorts every sampled point that is not NaN into exactly one of the sets
  (occupied_cells, model_cells, clip_cells), by its mask entry.
\<close>

fun bucket_points ::
  "OcTree \<Rightarrow> (point3d option \<times> mask_value) list \<Rightarrow> KeySet \<times> KeySet \<times> KeySet
     \<Rightarrow> KeySet \<times> KeySet \<times> KeySet" where
  "bucket_points t [] cells = cells"
| "bucket_points t ((None, m) # ps) cells = bucket_points t ps cells"
| "bucket_points t ((Some point_tf, m) # ps) (occupied_cells, model_cells, clip_cells) =
     (if m = INSIDE then
        bucket_points t ps (occupied_cells, keyset_insert (coordToKey t point_tf) model_cells, clip_cells)
      else if m = CLIP then
        bucket_points t ps (occupied_cells, model_cells, keyset_insert (coordToKey t point_tf) clip_cells)
      else
        bucket_points t ps (keyset_insert (coordToKey t point_tf) occupied_cells, model_cells, clip_cells))"

text \<open>
  One ray loop: for every end point key of the set, trace the ray to the centre of the
  voxel and, if the traversal succeeds, insert the traced keys into \<open>free_cells\<close>. The
  three loops run over occupied_cells, model_cells and clip_cells, in this order.
  (The handler around the loops is only reached by an exception of the library; the
  model has none.)
\<close>

fun trace_rays :: "(point3d \<Rightarrow> OcTreeKey list option) \<Rightarrow> OcTree \<Rightarrow> KeySet \<Rightarrow> KeySet \<Rightarrow> KeySet" where
  "trace_rays rays t [] free_cells = free_cells"
| "trace_rays rays t (k # ks) free_cells =
     (case rays (keyToCoord t k) of
        Some key_ray \<Rightarrow> trace_rays rays t ks (keyset_insert_range key_ray free_cells)
      | None \<Rightarrow> trace_rays rays t ks free_cells)"

definition compute_free_cells ::
  "(point3d \<Rightarrow> OcTreeKey list option) \<Rightarrow> OcTree \<Rightarrow> KeySet \<Rightarrow> KeySet \<Rightarrow> KeySet \<Rightarrow> KeySet" where
  "compute_free_cells rays t occupied_cells model_cells clip_cells =
     trace_rays rays t clip_cells
       (trace_rays rays t model_cells
          (trace_rays rays t occupied_cells []))"

text \<open>
  Reconciliation: cells that overlap with the model are not occupied; occupied cells are
  not free. The result is (free_cells, occupied_cells) as the commit sees them.
\<close>

definition reconcile :: "KeySet \<Rightarrow> KeySet \<Rightarrow> KeySet \<Rightarrow> KeySet \<times> KeySet" where
  "reconcile free_cells occupied_cells model_cells =
     (let occupied_cells' = keyset_erase_all model_cells occupied_cells;
          free_cells' = keyset_erase_all occupied_cells' free_cells
      in (free_cells', occupied_cells'))"

subsection \<open>The commit\<close>

text \<open>
  Each of the three commit loops applies the same call to \<^verbatim>\<open>tree_\<close> and then to
  \<^verbatim>\<open>frontier_tree_\<close>, key by key. The pair is (tree_, frontier_tree_). The increment of
  the model loop is computed once, from the clamping thresholds of \<^verbatim>\<open>tree_\<close>.
\<close>

fun update_cells ::
  "(OcTree \<Rightarrow> OcTreeKey \<Rightarrow> OcTree) \<Rightarrow> KeySet \<Rightarrow> OcTree \<times> OcTree \<Rightarrow> OcTree \<times> OcTree" where
  "update_cells upd [] trees = trees"
| "update_cells upd (k # ks) trees = update_cells upd ks (upd (fst trees) k, upd (snd trees) k)"

definition commit :: "OcTree \<times> OcTree \<Rightarrow> KeySet \<Rightarrow> KeySet \<Rightarrow> KeySet \<Rightarrow> OcTree \<times> OcTree" where
  "commit trees free_cells occupied_cells model_cells =
     (let trees1 = update_cells (\<lambda>t k. updateNode_occ t k False) free_cells trees;
          trees2 = update_cells (\<lambda>t k. updateNode_occ t k True) occupied_cells trees1;
          lg = clamping_thres_min (fst trees2) - clamping_thres_max (fst trees2)
      in update_cells (\<lambda>t k. updateNode t k lg) model_cells trees2)"

subsection \<open>Change tracking and the frontier\<close>

definition trackChanges :: "Updater \<Rightarrow> Updater" where
  "trackChanges u =
     (let ft = enableChangeDetection (frontier_tree u) True
      in u\<lparr>frontier_tree := resetChangeDetection ft,
           changed_cell := keyset_insert_range (changed_keys ft) []\<rparr>)"

definition outside_box :: "Updater \<Rightarrow> point3d \<Rightarrow> bool" where
  "outside_box u pt =
     (case pt of (cur_x, cur_y, cur_z) \<Rightarrow>
        cur_x < x_min u \<or> cur_x > x_max u \<or>
        cur_y < y_min u \<or> cur_y > y_max u \<or>
        cur_z < z_min u \<or> cur_z > z_max u)"

fun findFrontier_loop :: "Updater \<Rightarrow> KeySet \<Rightarrow> KeySet \<Rightarrow> KeySet" where
  "findFrontier_loop u [] frontierCells = frontierCells"
| "findFrontier_loop u (k # ks) frontierCells =
     (if outside_box u (keyToCoord (frontier_tree u) k) then findFrontier_loop u ks frontierCells
      else
        (case search (frontier_tree u) k of
           None \<Rightarrow> findFrontier_loop u ks frontierCells
         | Some changedCellNode \<Rightarrow>
             if \<not> isNodeOccupied (frontier_tree u) changedCellNode then
               (case neighbor_flags (frontier_tree u) k of
                  (unknownCellFlag, freeCellFlag) \<Rightarrow>
                    if unknownCellFlag \<and> freeCellFlag
                    then findFrontier_loop u ks (keyset_insert k frontierCells)
                    else findFrontier_loop u ks frontierCells)
             else findFrontier_loop u ks frontierCells))"

definition findFrontier :: "Updater \<Rightarrow> KeySet" where
  "findFrontier u =
     (if changed_cell u = [] then [] else findFrontier_loop u (changed_cell u) [])"

text \<open>
  \<^verbatim>\<open>mergeFrontier\<close>: the first loop collects in \<open>deleteSet\<close> the members of the persistent
  frontier set that are re-validated and fail; a member without a node is skipped. Then
  the delete set is erased and the new frontier inserted.
\<close>

fun revalidate :: "OcTree \<Rightarrow> KeySet \<Rightarrow> KeySet \<Rightarrow> KeySet" where
  "revalidate t [] deleteSet = deleteSet"
| "revalidate t (k # ks) deleteSet =
     (case search t k of
        None \<Rightarrow> revalidate t ks deleteSet
      | Some cellNode \<Rightarrow>
          if \<not> isNodeOccupied t cellNode then
            (case neighbor_flags t k of
               (unknownCellFlag, freeCellFlag) \<Rightarrow>
                 if unknownCellFlag \<and> freeCellFlag
                 then revalidate t ks deleteSet
                 else revalidate t ks (keyset_insert k deleteSet))
          else revalidate t ks (keyset_insert k deleteSet))"

definition mergeFrontier :: "Updater \<Rightarrow> KeySet \<Rightarrow> Updater" where
  "mergeFrontier u newFrontier =
     (let deleteSet = revalidate (frontier_tree u) (frontier_cell u) []
      in u\<lparr>frontier_cell :=
             keyset_insert_range newFrontier (keyset_erase_all deleteSet (frontier_cell u))\<rparr>)"

subsection \<open>The callback\<close>

text \<open>
  \<open>process_cloud\<close> is the body of \<^verbatim>\<open>cloudMsgCallback\<close> after its early returns: build the
  key sets, trace the rays and reconcile (\<open>frame_cells\<close>: the free, occupied and model
  sets as the commit sees them), commit to both trees, then \<^verbatim>\<open>trackChanges\<close>,
  \<^verbatim>\<open>findFrontier\<close> and \<^verbatim>\<open>mergeFrontier\<close>.
\<close>

definition frame_cells :: "Updater \<Rightarrow> Cloud \<Rightarrow> KeySet \<times> KeySet \<times> KeySet" where
  "frame_cells u c =
     (case bucket_points (tree u) (points c) ([], [], []) of
        (occupied_cells, model_cells, clip_cells) \<Rightarrow>
          (case reconcile
                  (compute_free_cells (computeRayKeys c) (tree u) occupied_cells model_cells clip_cells)
                  occupied_cells model_cells of
             (free_cells', occupied_cells') \<Rightarrow> (free_cells', occupied_cells', model_cells)))"

definition process_cloud :: "Updater \<Rightarrow> Cloud \<Rightarrow> Updater" where
  "process_cloud u c =
     (case frame_cells u c of
        (free_cells, occupied_cells, model_cells) \<Rightarrow>
          (case commit (tree u, frontier_tree u) free_cells occupied_cells model_cells of
             (t', ft') \<Rightarrow>
               (let u1 = trackChanges (u\<lparr>tree := t', frontier_tree := ft'\<rparr>)
                in mergeFrontier u1 (findFrontier u1))))"

definition cloudMsgCallback :: "Updater \<Rightarrow> Cloud \<Rightarrow> Updater" where
  "cloudMsgCallback u c =
     (if 0 < max_update_rate u \<and> now_check c - last_update_time u \<le> 1 / max_update_rate u
      then u
      else
        (let u1 = (if 0 < max_update_rate u then u\<lparr>last_update_time := now_update c\<rparr> else u);
             u2 = (if map_frame u1 = [] then u1\<lparr>map_frame := frame_id c\<rparr> else u1)
         in if map_frame u2 \<noteq> frame_id c \<and> \<not> transform_found c then u2
            else if \<not> transform_cache_updated c then u2
            else process_cloud u2 c))"

section \<open>Notions used in the statements\<close>

text \<open>The 26-neighbourhood of the data model, for comparison with the loops above.\<close>

definition offsets26 :: "(int \<times> int \<times> int) list" where
  "offsets26 =
     concat (map (\<lambda>x. concat (map (\<lambda>y. concat (map (\<lambda>z.
        if x = 0 \<and> y = 0 \<and> z = 0 then [] else [(x, y, z)]) [-1, 0, 1])) [-1, 0, 1])) [-1, 0, 1])"

text \<open>
  The calls the commit issues, as data: a call is a key with either the boolean overload
  of \<^verbatim>\<open>updateNode\<close> or the overload with an explicit log-odds increment. \<open>commit_updates\<close>
  is the sequence of one frame: a miss for every free key, a hit for every occupied key,
  the increment \<open>lg\<close> for every model key. Lemma \<open>commit_as_updates\<close> shows that the
  three loops of \<open>commit\<close> apply exactly this sequence to each tree.
\<close>

datatype node_update = Occupancy bool | LogOdds real

fun apply_update :: "OcTree \<Rightarrow> OcTreeKey \<times> node_update \<Rightarrow> OcTree" where
  "apply_update t (k, Occupancy occupied) = updateNode_occ t k occupied"
| "apply_update t (k, LogOdds d) = updateNode t k d"

definition commit_updates ::
  "real \<Rightarrow> KeySet \<Rightarrow> KeySet \<Rightarrow> KeySet \<Rightarrow> (OcTreeKey \<times> node_update) list" where
  "commit_updates lg free_cells occupied_cells model_cells =
     map (\<lambda>k. (k, Occupancy False)) free_cells @
     map (\<lambda>k. (k, Occupancy True)) occupied_cells @
     map (\<lambda>k. (k, LogOdds lg)) model_cells"

text \<open>
  The invariant of the data model: every stored value lies in the clamping range.
  \<open>tree_ok\<close> adds what the configuration of a map is expected to satisfy: the clamping
  range is not empty, the log-odds 0 of a fresh node is not above the clamping maximum,
  and the clamping minimum is below the decision threshold.
\<close>

definition tree_inv :: "OcTree \<Rightarrow> bool" where
  "tree_inv t =
     (\<forall>k v. nodes t k = Some v \<longrightarrow> clamping_thres_min t \<le> v \<and> v \<le> clamping_thres_max t)"

definition tree_ok :: "OcTree \<Rightarrow> bool" where
  "tree_ok t =
     (clamping_thres_min t \<le> clamping_thres_max t \<and> 0 \<le> clamping_thres_max t \<and>
      clamping_thres_min t < occ_prob_thres_log t \<and> tree_inv t)"

text \<open>
  Two trees hold the same occupancy map when they store the same values and update with
  the same increments and clamping range. The state of the change tracker is not part of
  the occupancy map: only \<^verbatim>\<open>frontier_tree_\<close> is ever armed.
\<close>

definition same_occupancy :: "OcTree \<Rightarrow> OcTree \<Rightarrow> bool" where
  "same_occupancy t ft =
     (nodes t = nodes ft \<and>
      clamping_thres_min t = clamping_thres_min ft \<and>
      clamping_thres_max t = clamping_thres_max ft \<and>
      prob_hit_log t = prob_hit_log ft \<and>
      prob_miss_log t = prob_miss_log ft)"

text \<open>\<open>records_changes t0 t\<close>: every key whose stored value differs between \<open>t0\<close> and \<open>t\<close> is
  among the keys the tracker of \<open>t\<close> has recorded.\<close>

definition records_changes :: "OcTree \<Rightarrow> OcTree \<Rightarrow> bool" where
  "records_changes t0 t = (\<forall>k. nodes t k \<noteq> nodes t0 k \<longrightarrow> k \<in> set (changed_keys t))"

text \<open>
  The frontier predicate as both \<^verbatim>\<open>findFrontier\<close> and \<^verbatim>\<open>mergeFrontier\<close> evaluate it on a
  key: the key has a node, the node is not occupied, and the scan of the collected
  neighbours has set both flags.
\<close>

definition frontier_predicate :: "OcTree \<Rightarrow> OcTreeKey \<Rightarrow> bool" where
  "frontier_predicate t k =
     (case search t k of
        None \<Rightarrow> False
      | Some v \<Rightarrow> \<not> isNodeOccupied t v \<and> neighbor_flags t k = (True, True))"

text \<open>What the ray to the end point \<open>k\<close> contributes to the free set: the traced keys, or
  nothing when the traversal fails.\<close>

definition ray_contribution ::
  "(point3d \<Rightarrow> OcTreeKey list option) \<Rightarrow> OcTree \<Rightarrow> OcTreeKey \<Rightarrow> OcTreeKey set" where
  "ray_contribution rays t k =
     (case rays (keyToCoord t k) of None \<Rightarrow> {} | Some key_ray \<Rightarrow> set key_ray)"



section \<open>Concrete inputs\<close>

text \<open>
  A freshly constructed map (no node, change detection off) and a map with three nodes:
  two free voxels that are corner neighbours of each other and an occupied voxel. The
  parameters are those of a usual configuration: resolution 1, clamping range
  \<open>[-2, 7/2]\<close>, hit increment \<open>17/20\<close>, miss increment \<open>-2/5\<close>, threshold 0.
\<close>

definition fresh_tree :: OcTree where
  "fresh_tree =
     \<lparr>resolution = 1, clamping_thres_min = -2, clamping_thres_max = 7 / 2,
      prob_hit_log = 17 / 20, prob_miss_log = - (2 / 5), occ_prob_thres_log = 0,
      nodes = Map.empty, use_change_detection = False, changed_keys = []\<rparr>"

definition demo_tree :: OcTree where
  "demo_tree =
     fresh_tree\<lparr>nodes :=
       [(100, 100, 100) \<mapsto> -2, (101, 101, 101) \<mapsto> - (2 / 5), (50, 50, 50) \<mapsto> 7 / 2]\<rparr>"

text \<open>
  An updater before its first frame (no rate limit, no map frame yet), and an updater
  in the middle of a run, limited to 10 frames per second and last updated at time 100.
\<close>

definition fresh_updater :: Updater where
  "fresh_updater =
     \<lparr>max_update_rate = 0, last_update_time = 0, map_frame = [],
      tree = fresh_tree, frontier_tree = fresh_tree,
      changed_cell = [], frontier_cell = [],
      x_min = -10, x_max = 10, y_min = -10, y_max = 10, z_min = -10, z_max = 10\<rparr>"

definition demo_updater :: Updater where
  "demo_updater =
     \<lparr>max_update_rate = 10, last_update_time = 100, map_frame = ''world'',
      tree = demo_tree, frontier_tree = demo_tree,
      changed_cell = [(100, 100, 100), (50, 50, 50)], frontier_cell = [(100, 100, 100)],
      x_min = -40000, x_max = 40000, y_min = -40000, y_max = 40000,
      z_min = -40000, z_max = 40000\<rparr>"

text \<open>
  A frame with three samples: an ordinary point in the voxel \<open>(32768, 32768, 32768)\<close>, a
  NaN sample, and a clipped point in the voxel \<open>(32766, 32768, 32768)\<close>. The ray
  traversal of the frame fails for end points with a negative x coordinate and yields
  two keys otherwise.
\<close>

definition demo_rays :: "point3d \<Rightarrow> OcTreeKey list option" where
  "demo_rays p =
     (if fst p < 0 then None else Some [(32768, 32768, 32768), (32769, 32768, 32768)])"

definition demo_cloud :: Cloud where
  "demo_cloud =
     \<lparr>now_check = 2001 / 20, now_update = 2001 / 20, frame_id = ''world'',
      transform_found = True, transform_cache_updated = True,
      points = [(Some (1 / 2, 1 / 2, 1 / 2), OUTSIDE), (None, OUTSIDE),
                (Some (- (3 / 2), 1 / 2, 1 / 2), CLIP)],
      computeRayKeys = demo_rays\<rparr>"

text \<open>
  A map with two free voxels that are face neighbours, everything else unknown, and an
  updater whose persistent frontier set holds one of them.
\<close>

definition face_tree :: OcTree where
  "face_tree = fresh_tree\<lparr>nodes := [(100, 100, 100) \<mapsto> -2, (101, 100, 100) \<mapsto> -2]\<rparr>"

definition face_updater :: Updater where
  "face_updater =
     \<lparr>max_update_rate = 0, last_update_time = 0, map_frame = ''world'',
      tree = face_tree, frontier_tree = face_tree,
      changed_cell = [], frontier_cell = [(100, 100, 100)],
      x_min = -40000, x_max = 40000, y_min = -40000, y_max = 40000,
      z_min = -40000, z_max = 40000\<rparr>"

section \<open>Lemmas\<close>

lemma set_keyset_insert: "set (keyset_insert k s) = insert k (set s)"
  by (auto simp: keyset_insert_def)

lemma set_keyset_insert_range: "set (keyset_insert_range ks s) = set ks \<union> set s"
  by (induction ks arbitrary: s) (auto simp: set_keyset_insert)

lemma set_keyset_erase_all: "set (keyset_erase_all ks s) = set s - set ks"
  by (induction ks arbitrary: s) (auto simp: keyset_erase_def)

lemma coordToKeyChecked1_keyToCoord1:
  assumes "0 < resolution t"
  shows "coordToKeyChecked1 t (keyToCoord1 t k) = Some k"
proof -
  have "keyToCoord1 t k / resolution t = real_of_int (uint k - tree_max_val) + 1 / 2"
    using assms by (simp add: keyToCoord1_def)
  moreover have "\<lfloor>real_of_int (uint k - tree_max_val) + 1 / 2\<rfloor> = uint k - tree_max_val"
    by linarith
  ultimately have fl: "\<lfloor>keyToCoord1 t k / resolution t\<rfloor> + tree_max_val = uint k"
    by simp
  have "uint k < 2 * tree_max_val"
    using uint_bounded [of k] by (simp add: tree_max_val_def)
  then show ?thesis
    by (simp add: coordToKeyChecked1_def fl)
qed

lemma coordToKeyChecked_keyToCoord:
  "0 < resolution t \<Longrightarrow> coordToKeyChecked t (keyToCoord t k) = Some k"
  by (cases k) (simp add: coordToKeyChecked_def keyToCoord_def coordToKeyChecked1_keyToCoord1)

lemma search_coord_keyToCoord:
  "0 < resolution t \<Longrightarrow> search_coord t (keyToCoord t k) = search t k"
  by (simp add: search_coord_def coordToKeyChecked_keyToCoord)

lemma updateNode_fields [simp]:
  "resolution (updateNode t k d) = resolution t"
  "clamping_thres_min (updateNode t k d) = clamping_thres_min t"
  "clamping_thres_max (updateNode t k d) = clamping_thres_max t"
  "prob_hit_log (updateNode t k d) = prob_hit_log t"
  "prob_miss_log (updateNode t k d) = prob_miss_log t"
  "occ_prob_thres_log (updateNode t k d) = occ_prob_thres_log t"
  "use_change_detection (updateNode t k d) = use_change_detection t"
  by (simp_all add: updateNode_def Let_def)

lemma nodes_updateNode:
  "nodes (updateNode t k d) =
     (nodes t)(k \<mapsto> updateNodeLogOdds t (case nodes t k of None \<Rightarrow> 0 | Some old \<Rightarrow> old) d)"
  by (simp add: updateNode_def Let_def)

lemma updateNodeLogOdds_range:
  "clamping_thres_min t \<le> clamping_thres_max t \<Longrightarrow>
     clamping_thres_min t \<le> updateNodeLogOdds t v d \<and> updateNodeLogOdds t v d \<le> clamping_thres_max t"
  by (simp add: updateNodeLogOdds_def Let_def)

lemma updateNodeLogOdds_to_min:
  "clamping_thres_min t \<le> clamping_thres_max t \<Longrightarrow> v \<le> clamping_thres_max t \<Longrightarrow>
     updateNodeLogOdds t v (clamping_thres_min t - clamping_thres_max t) = clamping_thres_min t"
  by (simp add: updateNodeLogOdds_def Let_def)

lemma tree_invD:
  "tree_inv t \<Longrightarrow> nodes t k = Some v \<Longrightarrow> clamping_thres_min t \<le> v \<and> v \<le> clamping_thres_max t"
  unfolding tree_inv_def by blast

lemma apply_update_fields [simp]:
  "resolution (apply_update t ku) = resolution t"
  "clamping_thres_min (apply_update t ku) = clamping_thres_min t"
  "clamping_thres_max (apply_update t ku) = clamping_thres_max t"
  "prob_hit_log (apply_update t ku) = prob_hit_log t"
  "prob_miss_log (apply_update t ku) = prob_miss_log t"
  "occ_prob_thres_log (apply_update t ku) = occ_prob_thres_log t"
  "use_change_detection (apply_update t ku) = use_change_detection t"
  by (cases ku; cases "snd ku"; simp add: updateNode_occ_def)+

lemma apply_updates_fields [simp]:
  "resolution (foldl apply_update t ups) = resolution t"
  "clamping_thres_min (foldl apply_update t ups) = clamping_thres_min t"
  "clamping_thres_max (foldl apply_update t ups) = clamping_thres_max t"
  "prob_hit_log (foldl apply_update t ups) = prob_hit_log t"
  "prob_miss_log (foldl apply_update t ups) = prob_miss_log t"
  "occ_prob_thres_log (foldl apply_update t ups) = occ_prob_thres_log t"
  "use_change_detection (foldl apply_update t ups) = use_change_detection t"
  by (induction ups arbitrary: t; simp)+

lemma nodes_apply_update_other:
  "k' \<noteq> fst ku \<Longrightarrow> nodes (apply_update t ku) k' = nodes t k'"
  by (cases ku; cases "snd ku"; simp add: updateNode_occ_def nodes_updateNode)

lemma nodes_apply_updates_other:
  "k' \<notin> fst ` set ups \<Longrightarrow> nodes (foldl apply_update t ups) k' = nodes t k'"
  by (induction ups arbitrary: t) (simp_all add: nodes_apply_update_other)

lemma tree_inv_updateNode:
  assumes "clamping_thres_min t \<le> clamping_thres_max t" "tree_inv t"
  shows "tree_inv (updateNode t k d)"
  using assms updateNodeLogOdds_range [OF assms(1)]
  by (auto simp: tree_inv_def nodes_updateNode)

lemma tree_inv_apply_update:
  "clamping_thres_min t \<le> clamping_thres_max t \<Longrightarrow> tree_inv t \<Longrightarrow> tree_inv (apply_update t ku)"
  by (cases ku; cases "snd ku"; simp add: updateNode_occ_def tree_inv_updateNode)

lemma tree_inv_apply_updates:
  "clamping_thres_min t \<le> clamping_thres_max t \<Longrightarrow> tree_inv t \<Longrightarrow>
     tree_inv (foldl apply_update t ups)"
  by (induction ups arbitrary: t) (simp_all add: tree_inv_apply_update)

lemma update_cells_fst:
  "fst (update_cells upd ks trees) = foldl upd (fst trees) ks"
  by (induction ks arbitrary: trees) simp_all

lemma update_cells_snd:
  "snd (update_cells upd ks trees) = foldl upd (snd trees) ks"
  by (induction ks arbitrary: trees) simp_all

lemma foldl_occ_updates:
  "foldl (\<lambda>t k. updateNode_occ t k b) t ks = foldl apply_update t (map (\<lambda>k. (k, Occupancy b)) ks)"
  by (induction ks arbitrary: t) simp_all

lemma foldl_logodds_updates:
  "foldl (\<lambda>t k. updateNode t k d) t ks = foldl apply_update t (map (\<lambda>k. (k, LogOdds d)) ks)"
  by (induction ks arbitrary: t) simp_all

lemma commit_fst:
  "fst (commit (t, ft) F O' M) =
     foldl apply_update t (commit_updates (clamping_thres_min t - clamping_thres_max t) F O' M)"
  by (simp add: commit_def Let_def update_cells_fst commit_updates_def
        foldl_occ_updates foldl_logodds_updates)

lemma commit_snd:
  "snd (commit (t, ft) F O' M) =
     foldl apply_update ft (commit_updates (clamping_thres_min t - clamping_thres_max t) F O' M)"
  by (simp add: commit_def Let_def update_cells_fst update_cells_snd commit_updates_def
        foldl_occ_updates foldl_logodds_updates)

lemma model_updates_to_min:
  assumes "clamping_thres_min t \<le> clamping_thres_max t" "0 \<le> clamping_thres_max t"
    and "tree_inv t" "X \<in> set M"
  shows "nodes (foldl apply_update t
           (map (\<lambda>k. (k, LogOdds (clamping_thres_min t - clamping_thres_max t))) M)) X
         = Some (clamping_thres_min t)"
  using assms
proof (induction M arbitrary: t)
  case Nil
  then show ?case by simp
next
  case (Cons k M)
  let ?lg = "clamping_thres_min t - clamping_thres_max t"
  let ?t' = "updateNode t k ?lg"
  have inv': "tree_inv ?t'"
    using Cons.prems by (simp add: tree_inv_updateNode)
  show ?case
  proof (cases "X \<in> set M")
    case True
    have "nodes (foldl apply_update ?t'
            (map (\<lambda>k. (k, LogOdds (clamping_thres_min ?t' - clamping_thres_max ?t'))) M)) X
          = Some (clamping_thres_min ?t')"
      by (rule Cons.IH) (use Cons.prems inv' True in simp_all)
    then show ?thesis by simp
  next
    case False
    with Cons.prems have [simp]: "X = k" by simp
    have old: "(case nodes t k of None \<Rightarrow> 0 | Some old \<Rightarrow> old) \<le> clamping_thres_max t"
      using Cons.prems(2) tree_invD [OF Cons.prems(3), of k]
      by (cases "nodes t k") simp_all
    have "nodes ?t' k = Some (clamping_thres_min t)"
      using Cons.prems(1) old by (simp add: nodes_updateNode updateNodeLogOdds_to_min)
    moreover have "k \<notin> fst ` set (map (\<lambda>k. (k, LogOdds ?lg)) M)"
      using False by (auto simp: image_iff)
    ultimately show ?thesis
      by (simp add: nodes_apply_updates_other)
  qed
qed

lemma commit_updates_model_min:
  assumes "clamping_thres_min t \<le> clamping_thres_max t" "0 \<le> clamping_thres_max t"
    and "tree_inv t" "X \<in> set M"
    and "lg = clamping_thres_min t - clamping_thres_max t"
  shows "nodes (foldl apply_update t (commit_updates lg F O' M)) X = Some (clamping_thres_min t)"
proof -
  let ?t2 = "foldl apply_update t
               (map (\<lambda>k. (k, Occupancy False)) F @ map (\<lambda>k. (k, Occupancy True)) O')"
  have inv2: "tree_inv ?t2"
    using assms(1,3) by (rule tree_inv_apply_updates)
  have "nodes (foldl apply_update ?t2
          (map (\<lambda>k. (k, LogOdds (clamping_thres_min ?t2 - clamping_thres_max ?t2))) M)) X
        = Some (clamping_thres_min ?t2)"
    by (rule model_updates_to_min) (use assms inv2 in simp_all)
  then show ?thesis
    by (simp add: commit_updates_def assms(5))
qed

lemma changed_keys_updateNode_mono:
  "set (changed_keys t) \<subseteq> set (changed_keys (updateNode t k d))"
  by (auto simp: updateNode_def Let_def set_keyset_insert)

lemma changed_keys_updateNode_sub:
  "set (changed_keys (updateNode t k d)) \<subseteq> insert k (set (changed_keys t))"
  by (auto simp: updateNode_def Let_def set_keyset_insert)

lemma records_changes_updateNode:
  assumes "use_change_detection t" "records_changes t0 t"
  shows "records_changes t0 (updateNode t k d)"
  unfolding records_changes_def
proof (intro allI impI)
  fix k'
  assume neq: "nodes (updateNode t k d) k' \<noteq> nodes t0 k'"
  show "k' \<in> set (changed_keys (updateNode t k d))"
  proof (cases "nodes (updateNode t k d) k' = nodes t k'")
    case True
    with neq assms(2) have "k' \<in> set (changed_keys t)"
      unfolding records_changes_def by metis
    then show ?thesis
      using changed_keys_updateNode_mono by blast
  next
    case False
    then have "k' = k"
      by (auto simp: nodes_updateNode split: if_splits)
    with False assms(1) show ?thesis
      by (auto simp: updateNode_def Let_def set_keyset_insert)
  qed
qed

lemma records_changes_apply_update:
  "use_change_detection t \<Longrightarrow> records_changes t0 t \<Longrightarrow> records_changes t0 (apply_update t ku)"
  by (cases ku; cases "snd ku"; simp add: updateNode_occ_def records_changes_updateNode)

lemma records_changes_apply_updates:
  "use_change_detection t \<Longrightarrow> records_changes t0 t \<Longrightarrow>
     records_changes t0 (foldl apply_update t ups)"
  by (induction ups arbitrary: t) (simp_all add: records_changes_apply_update)

lemma changed_keys_apply_update_sub:
  "set (changed_keys (apply_update t ku)) \<subseteq> insert (fst ku) (set (changed_keys t))"
  using changed_keys_updateNode_sub
  by (cases ku; cases "snd ku"; simp add: updateNode_occ_def)

lemma changed_keys_apply_updates_sub:
  "set (changed_keys (foldl apply_update t ups)) \<subseteq> fst ` set ups \<union> set (changed_keys t)"
proof (induction ups arbitrary: t)
  case Nil
  then show ?case by simp
next
  case (Cons ku ups)
  have "set (changed_keys (foldl apply_update (apply_update t ku) ups))
          \<subseteq> fst ` set ups \<union> set (changed_keys (apply_update t ku))"
    by (rule Cons.IH)
  with changed_keys_apply_update_sub [of t ku] show ?case
    by auto
qed

lemma fst_set_commit_updates:
  "fst ` set (commit_updates lg F O' M) = set F \<union> set O' \<union> set M"
  by (simp add: commit_updates_def image_Un image_image Un_assoc)

lemma commit_as_updates:
  "commit (t, ft) F O' M =
     (foldl apply_update t (commit_updates (clamping_thres_min t - clamping_thres_max t) F O' M),
      foldl apply_update ft (commit_updates (clamping_thres_min t - clamping_thres_max t) F O' M))"
  by (simp add: prod_eq_iff commit_fst commit_snd)

lemma mergeFrontier_fields [simp]:
  "tree (mergeFrontier u nf) = tree u"
  "frontier_tree (mergeFrontier u nf) = frontier_tree u"
  "changed_cell (mergeFrontier u nf) = changed_cell u"
  by (simp_all add: mergeFrontier_def Let_def)

lemma trackChanges_fields [simp]:
  "tree (trackChanges u) = tree u"
  "nodes (frontier_tree (trackChanges u)) = nodes (frontier_tree u)"
  "changed_keys (frontier_tree (trackChanges u)) = []"
  "use_change_detection (frontier_tree (trackChanges u))"
  "set (changed_cell (trackChanges u)) = set (changed_keys (frontier_tree u))"
  "clamping_thres_min (frontier_tree (trackChanges u)) = clamping_thres_min (frontier_tree u)"
  "clamping_thres_max (frontier_tree (trackChanges u)) = clamping_thres_max (frontier_tree u)"
  "prob_hit_log (frontier_tree (trackChanges u)) = prob_hit_log (frontier_tree u)"
  "prob_miss_log (frontier_tree (trackChanges u)) = prob_miss_log (frontier_tree u)"
  "occ_prob_thres_log (frontier_tree (trackChanges u)) = occ_prob_thres_log (frontier_tree u)"
  "resolution (frontier_tree (trackChanges u)) = resolution (frontier_tree u)"
  by (simp_all add: trackChanges_def Let_def enableChangeDetection_def resetChangeDetection_def
        set_keyset_insert_range)

lemma process_cloud_tree:
  "frame_cells u c = (F, O', M) \<Longrightarrow>
     tree (process_cloud u c) =
       foldl apply_update (tree u)
         (commit_updates (clamping_thres_min (tree u) - clamping_thres_max (tree u)) F O' M)"
  by (simp add: process_cloud_def Let_def commit_as_updates)

lemma process_cloud_frontier_tree:
  "frame_cells u c = (F, O', M) \<Longrightarrow>
     frontier_tree (process_cloud u c) =
       frontier_tree (trackChanges (u\<lparr>frontier_tree :=
         foldl apply_update (frontier_tree u)
           (commit_updates (clamping_thres_min (tree u) - clamping_thres_max (tree u)) F O' M)\<rparr>))"
  by (simp add: process_cloud_def Let_def commit_as_updates trackChanges_def)

lemma process_cloud_changed_cell:
  "frame_cells u c = (F, O', M) \<Longrightarrow>
     set (changed_cell (process_cloud u c)) =
       set (changed_keys (foldl apply_update (frontier_tree u)
           (commit_updates (clamping_thres_min (tree u) - clamping_thres_max (tree u)) F O' M)))"
  by (simp add: process_cloud_def Let_def commit_as_updates)

lemma same_occupancy_updateNode:
  assumes "same_occupancy t ft"
  shows "same_occupancy (updateNode t k d) (updateNode ft k d)"
proof -
  from assms have n: "nodes t = nodes ft"
    and mn: "clamping_thres_min t = clamping_thres_min ft"
    and mx: "clamping_thres_max t = clamping_thres_max ft"
    and hit: "prob_hit_log t = prob_hit_log ft"
    and miss: "prob_miss_log t = prob_miss_log ft"
    by (simp_all add: same_occupancy_def)
  have "updateNodeLogOdds t v d = updateNodeLogOdds ft v d" for v
    unfolding updateNodeLogOdds_def mn mx ..
  then show ?thesis
    unfolding same_occupancy_def nodes_updateNode n
    by (simp add: mn mx hit miss)
qed

lemma same_occupancy_apply_update:
  assumes "same_occupancy t ft"
  shows "same_occupancy (apply_update t ku) (apply_update ft ku)"
proof (cases ku)
  case (Pair k upd)
  from assms have hit: "prob_hit_log t = prob_hit_log ft"
    and miss: "prob_miss_log t = prob_miss_log ft"
    by (simp_all add: same_occupancy_def)
  show ?thesis
    using same_occupancy_updateNode [OF assms]
    by (cases upd) (simp_all add: Pair updateNode_occ_def hit miss)
qed

lemma same_occupancy_apply_updates:
  "same_occupancy t ft \<Longrightarrow> same_occupancy (foldl apply_update t ups) (foldl apply_update ft ups)"
  by (induction ups arbitrary: t ft) (simp_all add: same_occupancy_apply_update)

lemma same_occupancy_process_cloud:
  assumes "same_occupancy (tree u) (frontier_tree u)"
  shows "same_occupancy (tree (process_cloud u c)) (frontier_tree (process_cloud u c))"
proof -
  obtain F O' M where cells: "frame_cells u c = (F, O', M)"
    by (cases "frame_cells u c") auto
  let ?ups = "commit_updates (clamping_thres_min (tree u) - clamping_thres_max (tree u)) F O' M"
  let ?T = "foldl apply_update (tree u) ?ups"
  let ?FT = "foldl apply_update (frontier_tree u) ?ups"
  have so: "same_occupancy ?T ?FT"
    using assms by (rule same_occupancy_apply_updates)
  have t: "tree (process_cloud u c) = ?T"
    by (rule process_cloud_tree [OF cells])
  have f: "nodes (frontier_tree (process_cloud u c)) = nodes ?FT"
    "clamping_thres_min (frontier_tree (process_cloud u c)) = clamping_thres_min ?FT"
    "clamping_thres_max (frontier_tree (process_cloud u c)) = clamping_thres_max ?FT"
    "prob_hit_log (frontier_tree (process_cloud u c)) = prob_hit_log ?FT"
    "prob_miss_log (frontier_tree (process_cloud u c)) = prob_miss_log ?FT"
    by (simp_all add: process_cloud_frontier_tree [OF cells])
  show ?thesis
    using so unfolding same_occupancy_def t f .
qed

lemma same_occupancy_cloudMsgCallback:
  "same_occupancy (tree u) (frontier_tree u) \<Longrightarrow>
     same_occupancy (tree (cloudMsgCallback u c)) (frontier_tree (cloudMsgCallback u c))"
proof -
  assume a: "same_occupancy (tree u) (frontier_tree u)"
  have "\<And>u'. tree u' = tree u \<Longrightarrow> frontier_tree u' = frontier_tree u \<Longrightarrow>
          same_occupancy (tree (process_cloud u' c)) (frontier_tree (process_cloud u' c))"
    using a by (intro same_occupancy_process_cloud) simp
  with a show ?thesis
    by (simp add: cloudMsgCallback_def Let_def)
qed

lemma findFrontier_loop_step:
  "findFrontier_loop u (k # ks) acc =
     findFrontier_loop u ks
       (if \<not> outside_box u (keyToCoord (frontier_tree u) k) \<and> frontier_predicate (frontier_tree u) k
        then keyset_insert k acc else acc)"
proof (cases "neighbor_flags (frontier_tree u) k")
  case (Pair a b)
  then show ?thesis
    by (cases "search (frontier_tree u) k") (simp_all add: frontier_predicate_def)
qed

lemma findFrontier_loop_set:
  "set (findFrontier_loop u ks acc) =
     set acc \<union> {k \<in> set ks. \<not> outside_box u (keyToCoord (frontier_tree u) k) \<and>
                               frontier_predicate (frontier_tree u) k}"
proof (induction ks arbitrary: acc)
  case Nil
  then show ?case by simp
next
  case (Cons k ks)
  show ?case
    unfolding findFrontier_loop_step Cons.IH
    by (auto simp: set_keyset_insert)
qed

lemma set_findFrontier:
  "set (findFrontier u) =
     {k \<in> set (changed_cell u). \<not> outside_box u (keyToCoord (frontier_tree u) k) \<and>
                                 frontier_predicate (frontier_tree u) k}"
  by (simp add: findFrontier_def findFrontier_loop_set)

lemma revalidate_step:
  "revalidate t (k # ks) acc =
     revalidate t ks
       (if search t k \<noteq> None \<and> \<not> frontier_predicate t k then keyset_insert k acc else acc)"
proof (cases "neighbor_flags t k")
  case (Pair a b)
  then show ?thesis
    by (cases "search t k") (simp_all add: frontier_predicate_def)
qed

lemma revalidate_set:
  "set (revalidate t ks acc) =
     set acc \<union> {k \<in> set ks. search t k \<noteq> None \<and> \<not> frontier_predicate t k}"
proof (induction ks arbitrary: acc)
  case Nil
  then show ?case by simp
next
  case (Cons k ks)
  show ?case
    unfolding revalidate_step Cons.IH
    by (auto simp: set_keyset_insert)
qed

lemma revalidate_all_frontier:
  "\<forall>k \<in> set ks. frontier_predicate t k \<Longrightarrow> revalidate t ks acc = acc"
proof (induction ks arbitrary: acc)
  case Nil
  then show ?case by simp
next
  case (Cons k ks)
  then show ?case
    unfolding revalidate_step by simp
qed

lemma frontier_predicate_not_occupied:
  "frontier_predicate t k \<Longrightarrow> query t k = FREE"
  by (auto simp: frontier_predicate_def query_def split: option.splits)

lemma set_frontier_cell_mergeFrontier:
  "set (frontier_cell (mergeFrontier u nf)) =
     set nf \<union> (set (frontier_cell u) - set (revalidate (frontier_tree u) (frontier_cell u) []))"
  by (simp add: mergeFrontier_def Let_def set_keyset_insert_range set_keyset_erase_all)

lemma trace_rays_append:
  "trace_rays rays t (ks @ ks') free = trace_rays rays t ks' (trace_rays rays t ks free)"
  by (induction ks arbitrary: free) (simp_all split: option.splits)

lemma set_trace_rays:
  "set (trace_rays rays t ks free) = set free \<union> (\<Union>k \<in> set ks. ray_contribution rays t k)"
proof (induction ks arbitrary: free)
  case Nil
  then show ?case by simp
next
  case (Cons k ks)
  show ?case
  proof (cases "rays (keyToCoord t k)")
    case None
    then show ?thesis
      by (simp add: Cons.IH ray_contribution_def)
  next
    case (Some r)
    then show ?thesis
      by (simp add: Cons.IH ray_contribution_def set_keyset_insert_range Un_assoc Un_commute)
  qed
qed

lemma same_occupancy_frames:
  "same_occupancy (tree u) (frontier_tree u) \<Longrightarrow>
     same_occupancy (tree (foldl cloudMsgCallback u cs)) (frontier_tree (foldl cloudMsgCallback u cs))"
  by (induction cs arbitrary: u) (simp_all add: same_occupancy_cloudMsgCallback)

text \<open>A well-formed map stays well formed over every frame.\<close>

lemma tree_ok_apply_updates:
  assumes "tree_ok t"
  shows "tree_ok (foldl apply_update t ups)"
proof -
  from assms have "tree_inv (foldl apply_update t ups)"
    by (intro tree_inv_apply_updates) (simp_all add: tree_ok_def)
  with assms show ?thesis
    by (simp add: tree_ok_def)
qed

lemma tree_ok_process_cloud:
  "tree_ok (tree u) \<Longrightarrow> tree_ok (tree (process_cloud u c))"
  "tree_ok (frontier_tree u) \<Longrightarrow> tree_ok (frontier_tree (process_cloud u c))"
proof -
  obtain F O' M where cells: "frame_cells u c = (F, O', M)"
    by (cases "frame_cells u c") auto
  let ?ups = "commit_updates (clamping_thres_min (tree u) - clamping_thres_max (tree u)) F O' M"
  show "tree_ok (tree (process_cloud u c))" if "tree_ok (tree u)"
    using tree_ok_apply_updates [OF that, of ?ups]
    by (simp add: process_cloud_tree [OF cells])
  show "tree_ok (frontier_tree (process_cloud u c))" if "tree_ok (frontier_tree u)"
    using tree_ok_apply_updates [OF that, of ?ups]
    by (simp add: process_cloud_frontier_tree [OF cells] tree_ok_def tree_inv_def)
qed

lemma tree_ok_cloudMsgCallback:
  "tree_ok (tree u) \<Longrightarrow> tree_ok (tree (cloudMsgCallback u c))"
  "tree_ok (frontier_tree u) \<Longrightarrow> tree_ok (frontier_tree (cloudMsgCallback u c))"
proof -
  have t: "tree_ok (tree (process_cloud u' c))"
    if "tree u' = tree u" "tree_ok (tree u)" for u'
    using tree_ok_process_cloud(1) [of u' c] that by simp
  have f: "tree_ok (frontier_tree (process_cloud u' c))"
    if "frontier_tree u' = frontier_tree u" "tree_ok (frontier_tree u)" for u'
    using tree_ok_process_cloud(2) [of u' c] that by simp
  show "tree_ok (tree (cloudMsgCallback u c))" if "tree_ok (tree u)"
    using that t by (simp add: cloudMsgCallback_def Let_def)
  show "tree_ok (frontier_tree (cloudMsgCallback u c))" if "tree_ok (frontier_tree u)"
    using that f by (simp add: cloudMsgCallback_def Let_def)
qed

subsection \<open>Facts about the concrete inputs\<close>

lemma fresh_tree_fields [simp]:
  "resolution fresh_tree = 1"
  "clamping_thres_min fresh_tree = -2"
  "clamping_thres_max fresh_tree = 7 / 2"
  "prob_hit_log fresh_tree = 17 / 20"
  "prob_miss_log fresh_tree = - (2 / 5)"
  "occ_prob_thres_log fresh_tree = 0"
  "nodes fresh_tree = Map.empty"
  "use_change_detection fresh_tree = False"
  "changed_keys fresh_tree = []"
  by (simp_all add: fresh_tree_def)

lemma demo_tree_fields [simp]:
  "resolution demo_tree = 1"
  "clamping_thres_min demo_tree = -2"
  "clamping_thres_max demo_tree = 7 / 2"
  "prob_hit_log demo_tree = 17 / 20"
  "prob_miss_log demo_tree = - (2 / 5)"
  "occ_prob_thres_log demo_tree = 0"
  "nodes demo_tree = [(100, 100, 100) \<mapsto> -2, (101, 101, 101) \<mapsto> - (2 / 5), (50, 50, 50) \<mapsto> 7 / 2]"
  "use_change_detection demo_tree = False"
  "changed_keys demo_tree = []"
  by (simp_all add: demo_tree_def)

lemma fresh_updater_fields [simp]:
  "max_update_rate fresh_updater = 0"
  "map_frame fresh_updater = []"
  "tree fresh_updater = fresh_tree"
  "frontier_tree fresh_updater = fresh_tree"
  "changed_cell fresh_updater = []"
  "frontier_cell fresh_updater = []"
  by (simp_all add: fresh_updater_def)

lemma demo_updater_fields [simp]:
  "max_update_rate demo_updater = 10"
  "last_update_time demo_updater = 100"
  "tree demo_updater = demo_tree"
  "frontier_tree demo_updater = demo_tree"
  "changed_cell demo_updater = [(100, 100, 100), (50, 50, 50)]"
  "frontier_cell demo_updater = [(100, 100, 100)]"
  by (simp_all add: demo_updater_def)

lemma demo_cloud_fields [simp]:
  "now_check demo_cloud = 2001 / 20"
  "frame_id demo_cloud = ''world''"
  "transform_cache_updated demo_cloud"
  "computeRayKeys demo_cloud = demo_rays"
  "points demo_cloud = [(Some (1 / 2, 1 / 2, 1 / 2), OUTSIDE), (None, OUTSIDE),
                        (Some (- (3 / 2), 1 / 2, 1 / 2), CLIP)]"
  by (simp_all add: demo_cloud_def)

lemma process_cloud_config [simp]:
  "max_update_rate (process_cloud u c) = max_update_rate u"
  "map_frame (process_cloud u c) = map_frame u"
  by (simp_all add: process_cloud_def mergeFrontier_def trackChanges_def Let_def split: prod.splits)

lemma cloudMsgCallback_unlimited:
  "max_update_rate u = 0 \<Longrightarrow> map_frame u = [] \<or> map_frame u = frame_id c \<Longrightarrow>
     transform_cache_updated c \<Longrightarrow>
     cloudMsgCallback u c = process_cloud (u\<lparr>map_frame := frame_id c\<rparr>) c"
proof -
  assume r: "max_update_rate u = 0" and f: "map_frame u = [] \<or> map_frame u = frame_id c"
    and t: "transform_cache_updated c"
  show ?thesis
  proof (cases "map_frame u = []")
    case True
    with r t show ?thesis
      by (simp add: cloudMsgCallback_def Let_def)
  next
    case False
    with f have eq: "map_frame u = frame_id c"
      by simp
    then have upd: "u\<lparr>map_frame := frame_id c\<rparr> = u"
      by (cases u) simp
    show ?thesis
      unfolding upd using r t False eq by (simp add: cloudMsgCallback_def Let_def)
  qed
qed

lemma tree_ok_demo_tree: "tree_ok demo_tree"
  by (auto simp: tree_ok_def tree_inv_def split: if_splits)

lemma demo_keys:
  "coordToKey fresh_tree (1 / 2, 1 / 2, 1 / 2) = (32768, 32768, 32768)"
  "coordToKey fresh_tree (- (3 / 2), 1 / 2, 1 / 2) = (32766, 32768, 32768)"
  "keyToCoord fresh_tree (32768, 32768, 32768) = (1 / 2, 1 / 2, 1 / 2)"
  "keyToCoord fresh_tree (32766, 32768, 32768) = (- (3 / 2), 1 / 2, 1 / 2)"
  by (simp_all add: coordToKey_def coordToKey1_def keyToCoord_def keyToCoord1_def tree_max_val_def)

lemma demo_flags: "neighbor_flags demo_tree (100, 100, 100) = (True, True)"
  by (simp add: neighbor_flags_def cellNeighbor_def neighbor_keys_def neighbor_key_def
        neighbor_offsets_def search_coord_keyToCoord search_def isNodeOccupied_def)

lemma unarmed_updateNode:
  "\<not> use_change_detection t \<Longrightarrow> changed_keys (updateNode t k d) = changed_keys t"
  by (simp add: updateNode_def Let_def)

lemma unarmed_apply_update:
  "\<not> use_change_detection t \<Longrightarrow> changed_keys (apply_update t ku) = changed_keys t"
  by (cases ku; cases "snd ku"; simp add: updateNode_occ_def unarmed_updateNode)

lemma unarmed_apply_updates:
  "\<not> use_change_detection t \<Longrightarrow> changed_keys (foldl apply_update t ups) = changed_keys t"
  by (induction ups arbitrary: t) (simp_all add: unarmed_apply_update)

lemma demo_frame_cells:
  "tree u = fresh_tree \<Longrightarrow>
     frame_cells u demo_cloud = ([(32769, 32768, 32768)], [(32768, 32768, 32768)], [])"
  by (simp add: frame_cells_def demo_keys keyset_insert_def
        compute_free_cells_def demo_rays_def reconcile_def keyset_erase_def)

lemma demo_first_frame:
  "cloudMsgCallback fresh_updater demo_cloud =
     process_cloud (fresh_updater\<lparr>map_frame := ''world''\<rparr>) demo_cloud"
  by (simp add: cloudMsgCallback_unlimited)

text \<open>
  When every member of the persistent frontier set passes the test the re-validation
  itself applies, a merge with no candidates changes nothing.
\<close>

lemma mergeFrontier_unchanged_when_kept:
  assumes "\<forall>k \<in> set (frontier_cell u). frontier_predicate (frontier_tree u) k"
  shows "mergeFrontier u [] = u"
  using revalidate_all_frontier [OF assms, of "[]"]
  by (simp add: mergeFrontier_def)

lemma face_tree_fields [simp]:
  "resolution face_tree = 1"
  "occ_prob_thres_log face_tree = 0"
  "nodes face_tree = [(100, 100, 100) \<mapsto> -2, (101, 100, 100) \<mapsto> -2]"
  by (simp_all add: face_tree_def)

lemma face_updater_fields [simp]:
  "frontier_tree face_updater = face_tree"
  "frontier_cell face_updater = [(100, 100, 100)]"
  by (simp_all add: face_updater_def)



section \<open>Results\<close>

text \<open>
  C1. The claim: the neighbourhood enumerated by the frontier predicate is the 26 offsets
  with a nonzero component. The loops skip an offset as soon as one component is zero, so
  they enumerate the 8 corner offsets only; the comment above them says
  \<^verbatim>\<open>26 neighbours\<close>. The theorem evaluates the enumeration: 8 offsets, all corners, and the
  face neighbour \<open>(1, 0, 0)\<close> and the edge neighbour \<open>(1, 1, 0)\<close>, both among the 26, are
  missing.
\<close>

theorem neighbor_offsets_corners_only:
  "neighbor_offsets =
     [(-1, -1, -1), (-1, -1, 1), (-1, 1, -1), (-1, 1, 1),
      (1, -1, -1), (1, -1, 1), (1, 1, -1), (1, 1, 1)]
   \<and> length neighbor_offsets = 8 \<and> length offsets26 = 26
   \<and> (1, 0, 0) \<in> set offsets26 \<and> (1, 0, 0) \<notin> set neighbor_offsets
   \<and> (1, 1, 0) \<in> set offsets26 \<and> (1, 1, 0) \<notin> set neighbor_offsets
   \<and> neighbor_keys (100, 100, 100) =
     [(99, 99, 99), (99, 99, 101), (99, 101, 99), (99, 101, 101),
      (101, 99, 99), (101, 99, 101), (101, 101, 99), (101, 101, 101)]"
  by (simp add: neighbor_offsets_def offsets26_def neighbor_keys_def neighbor_key_def)

text \<open>
  C2. A voxel key that is both in the model set and in the occupied set of a frame is
  removed from the occupied set by the reconciliation, and after the commit its stored
  log-odds is the clamping minimum in both trees, so it is not OCCUPIED. The map is
  assumed well formed (\<open>tree_ok\<close>: stored values within the clamping range, a clamping
  range that is not empty and whose maximum is not negative, a clamping minimum below
  the decision threshold), and \<^verbatim>\<open>frontier_tree_\<close> is assumed to clamp to the same range as
  \<^verbatim>\<open>tree_\<close>, from which the increment of the model loop is computed. A well-formed map
  stays well formed over every frame (lemma \<open>tree_ok_cloudMsgCallback\<close>).
\<close>

theorem model_overlap_forced_to_min:
  assumes "X \<in> set model_cells" and "X \<in> set occupied_cells"
    and "tree_ok t" and "tree_ok ft"
    and "clamping_thres_min ft = clamping_thres_min t"
    and "clamping_thres_max ft = clamping_thres_max t"
    and "reconcile free_cells occupied_cells model_cells = (F, O')"
    and "commit (t, ft) F O' model_cells = (t', ft')"
  shows "X \<notin> set O' \<and>
         nodes t' X = Some (clamping_thres_min t) \<and> query t' X \<noteq> OCCUPIED \<and>
         nodes ft' X = Some (clamping_thres_min t) \<and> query ft' X \<noteq> OCCUPIED"
proof -
  let ?lg = "clamping_thres_min t - clamping_thres_max t"
  have O': "set O' = set occupied_cells - set model_cells"
    using assms(7) by (auto simp: reconcile_def Let_def set_keyset_erase_all)
  have t': "t' = foldl apply_update t (commit_updates ?lg F O' model_cells)"
    using commit_fst [of t ft F O' model_cells] assms(8) by simp
  have ft': "ft' = foldl apply_update ft (commit_updates ?lg F O' model_cells)"
    using commit_snd [of t ft F O' model_cells] assms(8) by simp
  have n: "nodes t' X = Some (clamping_thres_min t)"
    unfolding t' using assms(1,3) by (intro commit_updates_model_min) (simp_all add: tree_ok_def)
  have nf: "nodes ft' X = Some (clamping_thres_min ft)"
    unfolding ft' using assms(1,4,5,6) by (intro commit_updates_model_min) (simp_all add: tree_ok_def)
  have thr: "occ_prob_thres_log t' = occ_prob_thres_log t" "occ_prob_thres_log ft' = occ_prob_thres_log ft"
    by (simp_all add: t' ft')
  show ?thesis
    using assms(1,3,4,5) O' n nf thr
    by (simp add: query_def search_def isNodeOccupied_def tree_ok_def)
qed

theorem model_overlap_forced_to_min_witness:
  "reconcile [(101, 101, 101), (1, 1, 1)] [(101, 101, 101), (50, 50, 50)] [(101, 101, 101)]
     = ([(101, 101, 101), (1, 1, 1)], [(50, 50, 50)]) \<and>
   nodes demo_tree (101, 101, 101) = Some (- (2 / 5)) \<and>
   nodes (fst (commit (demo_tree, demo_tree) [(101, 101, 101), (1, 1, 1)] [(50, 50, 50)]
                 [(101, 101, 101)])) (101, 101, 101) = Some (-2) \<and>
   query (fst (commit (demo_tree, demo_tree) [(101, 101, 101), (1, 1, 1)] [(50, 50, 50)]
                 [(101, 101, 101)])) (101, 101, 101) \<noteq> OCCUPIED \<and>
   nodes (snd (commit (demo_tree, demo_tree) [(101, 101, 101), (1, 1, 1)] [(50, 50, 50)]
                 [(101, 101, 101)])) (101, 101, 101) = Some (-2)"
proof -
  have r: "reconcile [(101, 101, 101), (1, 1, 1)] [(101, 101, 101), (50, 50, 50)] [(101, 101, 101)]
             = ([(101, 101, 101), (1, 1, 1)], [(50, 50, 50)])"
    by (simp add: reconcile_def keyset_erase_def)
  have c: "commit (demo_tree, demo_tree) [(101, 101, 101), (1, 1, 1)] [(50, 50, 50)] [(101, 101, 101)]
             = (fst (commit (demo_tree, demo_tree) [(101, 101, 101), (1, 1, 1)] [(50, 50, 50)]
                       [(101, 101, 101)]),
                snd (commit (demo_tree, demo_tree) [(101, 101, 101), (1, 1, 1)] [(50, 50, 50)]
                       [(101, 101, 101)]))"
    by simp
  show ?thesis
    using model_overlap_forced_to_min [OF _ _ tree_ok_demo_tree tree_ok_demo_tree refl refl r c]
    by (simp add: r)
qed

text \<open>
  C3. The reconciliation first erases every model key from the occupied set and then
  every key of the resulting occupied set from the free set. The two sets the commit
  receives are therefore disjoint, the commit applies to each tree the sequence
  \<open>commit_updates\<close>, and every key that receives a miss (\<^verbatim>\<open>updateNode(key, false)\<close>) in it
  is a free key and not a key of the occupied set. (Occupied means: in the occupied set
  as the commit sees it; a key that was erased from it as a model overlap may still lie
  on a ray and receive a miss before the model loop forces it to the minimum.)
\<close>

theorem reconcile_free_occupied_disjoint:
  assumes "reconcile free_cells occupied_cells model_cells = (F, O')"
  shows "set O' = set occupied_cells - set model_cells \<and>
         set F = set free_cells - set O' \<and>
         set F \<inter> set O' = {} \<and>
         commit (t, ft) F O' model_cells =
           (foldl apply_update t
              (commit_updates (clamping_thres_min t - clamping_thres_max t) F O' model_cells),
            foldl apply_update ft
              (commit_updates (clamping_thres_min t - clamping_thres_max t) F O' model_cells)) \<and>
         (\<forall>k lg. (k, Occupancy False) \<in> set (commit_updates lg F O' model_cells)
                    \<longrightarrow> k \<in> set F \<and> k \<notin> set O')"
proof -
  from assms have O': "O' = keyset_erase_all model_cells occupied_cells"
    by (auto simp: reconcile_def Let_def)
  from assms have F: "F = keyset_erase_all O' free_cells"
    by (auto simp: reconcile_def Let_def)
  have 1: "set O' = set occupied_cells - set model_cells"
    by (simp add: O' set_keyset_erase_all)
  have 2: "set F = set free_cells - set O'"
    by (subst F) (simp add: set_keyset_erase_all)
  have 3: "\<forall>k lg. (k, Occupancy False) \<in> set (commit_updates lg F O' model_cells)
                    \<longrightarrow> k \<in> set F \<and> k \<notin> set O'"
    using 2 by (auto simp: commit_updates_def)
  have 4: "set F \<inter> set O' = {}"
    using 2 by blast
  show ?thesis
    using 1 2 3 4 commit_as_updates [of t ft F O' model_cells] by (intro conjI)
qed

theorem reconcile_free_occupied_disjoint_witness:
  "reconcile [(1, 1, 1), (50, 50, 50), (2, 2, 2)] [(2, 2, 2), (50, 50, 50)] [(2, 2, 2)]
     = ([(1, 1, 1), (2, 2, 2)], [(50, 50, 50)]) \<and>
   set [(1, 1, 1), (2, 2, 2)] \<inter> set [(50, 50, 50) :: OcTreeKey] = {} \<and>
   ((50, 50, 50), Occupancy False)
     \<notin> set (commit_updates (-11 / 2) [(1, 1, 1), (2, 2, 2)] [(50, 50, 50)] [(2, 2, 2)])"
proof -
  have r: "reconcile [(1, 1, 1), (50, 50, 50), (2, 2, 2)] [(2, 2, 2), (50, 50, 50)] [(2, 2, 2)]
             = ([(1, 1, 1), (2, 2, 2)], [(50, 50, 50)])"
    by (simp add: reconcile_def keyset_erase_def)
  note th = reconcile_free_occupied_disjoint [OF r, of demo_tree demo_tree]
  have d: "set [(1, 1, 1), (2, 2, 2)] \<inter> set [(50, 50, 50) :: OcTreeKey] = {}"
    by (rule th [THEN conjunct2, THEN conjunct2, THEN conjunct1])
  have "((50, 50, 50), Occupancy False)
          \<in> set (commit_updates (-11 / 2) [(1, 1, 1), (2, 2, 2)] [(50, 50, 50)] [(2, 2, 2)])
        \<Longrightarrow> (50, 50, 50) \<notin> set [(50, 50, 50) :: OcTreeKey]"
    using th [THEN conjunct2, THEN conjunct2, THEN conjunct2, THEN conjunct2, rule_format,
              of "(50, 50, 50)" "-11 / 2"]
    by (rule conjunct2)
  then have n: "((50, 50, 50), Occupancy False)
          \<notin> set (commit_updates (-11 / 2) [(1, 1, 1), (2, 2, 2)] [(50, 50, 50)] [(2, 2, 2)])"
    by auto
  from r d n show ?thesis
    by (intro conjI)
qed

text \<open>
  C4. Whatever the change set, the bounding box and the map are, every key
  \<^verbatim>\<open>findFrontier\<close> returns is a key of the change set, is not OCCUPIED in the frontier
  tree, and has its voxel centre inside the bounding box.
\<close>

theorem findFrontier_sound:
  "set (findFrontier u) \<subseteq> set (changed_cell u) \<and>
   (\<forall>k \<in> set (findFrontier u).
      query (frontier_tree u) k \<noteq> OCCUPIED \<and>
      \<not> outside_box u (keyToCoord (frontier_tree u) k))"
  by (auto simp: set_findFrontier dest: frontier_predicate_not_occupied)

theorem findFrontier_sound_witness:
  "findFrontier demo_updater = [(100, 100, 100)] \<and>
   (100, 100, 100) \<in> set (changed_cell demo_updater) \<and>
   query (frontier_tree demo_updater) (100, 100, 100) \<noteq> OCCUPIED \<and>
   \<not> outside_box demo_updater (keyToCoord (frontier_tree demo_updater) (100, 100, 100))"
proof -
  have f: "findFrontier demo_updater = [(100, 100, 100)]"
    by (simp add: findFrontier_def findFrontier_loop_step outside_box_def demo_updater_def
          keyToCoord_def keyToCoord1_def tree_max_val_def frontier_predicate_def search_def
          isNodeOccupied_def demo_flags keyset_insert_def)
  then have "(100, 100, 100) \<in> set (findFrontier demo_updater)"
    by simp
  with findFrontier_sound [of demo_updater] f show ?thesis
    by blast
qed

text \<open>
  C5, as amended. The claim as stated fails on the first frame: \<^verbatim>\<open>trackChanges\<close> arms the
  change detection only when it drains, after the commit, so a commit on a tree whose
  detection is not armed yet records nothing (the counterexample after the witness
  below, on a freshly constructed updater). When the detection is armed and no key is
  pending at the start of the frame, which \<^verbatim>\<open>trackChanges\<close> establishes for every later
  frame, the drained change set contains every key whose stored value in the frontier
  tree differs after the frame, it contains only keys the commit of this frame updated,
  and the drain leaves the tracker empty and armed.
\<close>

theorem drained_change_set_when_armed:
  assumes armed: "use_change_detection (frontier_tree u)"
    and empty: "changed_keys (frontier_tree u) = []"
    and cells: "frame_cells u c = (F, O', M)"
  shows "(\<forall>k. nodes (frontier_tree (process_cloud u c)) k \<noteq> nodes (frontier_tree u) k
            \<longrightarrow> k \<in> set (changed_cell (process_cloud u c))) \<and>
         set (changed_cell (process_cloud u c)) \<subseteq> set F \<union> set O' \<union> set M \<and>
         changed_keys (frontier_tree (process_cloud u c)) = [] \<and>
         use_change_detection (frontier_tree (process_cloud u c))"
proof -
  let ?ups = "commit_updates (clamping_thres_min (tree u) - clamping_thres_max (tree u)) F O' M"
  let ?ft = "foldl apply_update (frontier_tree u) ?ups"
  have "records_changes (frontier_tree u) (frontier_tree u)"
    by (simp add: records_changes_def)
  with armed have rec: "records_changes (frontier_tree u) ?ft"
    by (rule records_changes_apply_updates)
  have nodes_eq: "nodes (frontier_tree (process_cloud u c)) = nodes ?ft"
    by (simp add: process_cloud_frontier_tree [OF cells])
  have cc: "set (changed_cell (process_cloud u c)) = set (changed_keys ?ft)"
    by (rule process_cloud_changed_cell [OF cells])
  have sub: "set (changed_keys ?ft) \<subseteq> set F \<union> set O' \<union> set M"
    using changed_keys_apply_updates_sub [of "frontier_tree u" ?ups]
    by (simp add: fst_set_commit_updates empty)
  have "\<forall>k. nodes ?ft k \<noteq> nodes (frontier_tree u) k \<longrightarrow> k \<in> set (changed_keys ?ft)"
    using rec unfolding records_changes_def .
  then show ?thesis
    using sub by (simp add: nodes_eq cc process_cloud_frontier_tree [OF cells])
qed

theorem drained_change_set_when_armed_witness:
  "use_change_detection (frontier_tree (trackChanges fresh_updater)) \<and>
   changed_keys (frontier_tree (trackChanges fresh_updater)) = [] \<and>
   (32768, 32768, 32768) \<in> set (changed_cell (process_cloud (trackChanges fresh_updater) demo_cloud)) \<and>
   changed_keys (frontier_tree (process_cloud (trackChanges fresh_updater) demo_cloud)) = []"
proof -
  let ?u = "trackChanges fresh_updater"
  have cells: "frame_cells ?u demo_cloud = ([(32769, 32768, 32768)], [(32768, 32768, 32768)], [])"
    by (rule demo_frame_cells) simp
  have armed: "use_change_detection (frontier_tree ?u)" and empty: "changed_keys (frontier_tree ?u) = []"
    by simp_all
  have "nodes (frontier_tree (process_cloud ?u demo_cloud)) (32768, 32768, 32768)
          \<noteq> nodes (frontier_tree ?u) (32768, 32768, 32768)"
    by (simp add: process_cloud_frontier_tree [OF cells] commit_updates_def updateNode_occ_def
          nodes_updateNode)
  with drained_change_set_when_armed [OF armed empty cells] armed empty show ?thesis
    by blast
qed

theorem first_frame_changes_not_drained:
  "nodes (frontier_tree fresh_updater) (32768, 32768, 32768) = None \<and>
   nodes (frontier_tree (cloudMsgCallback fresh_updater demo_cloud)) (32768, 32768, 32768)
     = Some (17 / 20) \<and>
   (32768, 32768, 32768) \<notin> set (changed_cell (cloudMsgCallback fresh_updater demo_cloud))"
proof -
  let ?u = "fresh_updater\<lparr>map_frame := ''world''\<rparr>"
  have cells: "frame_cells ?u demo_cloud = ([(32769, 32768, 32768)], [(32768, 32768, 32768)], [])"
    by (rule demo_frame_cells) simp
  have 1: "nodes (frontier_tree fresh_updater) (32768, 32768, 32768) = None"
    by simp
  have 2: "nodes (frontier_tree (process_cloud ?u demo_cloud)) (32768, 32768, 32768) = Some (17 / 20)"
    by (simp add: process_cloud_frontier_tree [OF cells] commit_updates_def updateNode_occ_def
          nodes_updateNode updateNodeLogOdds_def)
  have 3: "set (changed_cell (process_cloud ?u demo_cloud)) = {}"
    by (simp add: process_cloud_changed_cell [OF cells] unarmed_apply_updates)
  show ?thesis
    using 1 2 3 by (simp add: demo_first_frame)
qed


text \<open>
  C7. With a positive maximum update rate, a frame that arrives while the time since the
  last update does not exceed \<open>1 / max_update_rate\<close> (in particular one that arrives
  before the interval has elapsed) leaves the whole state of the updater unchanged: the
  callback returns before it builds a key set or touches a tree, the change set or the
  frontier set.
\<close>

theorem rate_limited_frame_dropped:
  "0 < max_update_rate u \<Longrightarrow> now_check c - last_update_time u \<le> 1 / max_update_rate u \<Longrightarrow>
     cloudMsgCallback u c = u"
  by (simp add: cloudMsgCallback_def)

theorem rate_limited_frame_dropped_witness:
  "0 < max_update_rate demo_updater \<and>
   now_check demo_cloud - last_update_time demo_updater < 1 / max_update_rate demo_updater \<and>
   cloudMsgCallback demo_updater demo_cloud = demo_updater"
proof -
  have r: "0 < max_update_rate demo_updater"
    by (simp add: demo_updater_def)
  have e: "now_check demo_cloud - last_update_time demo_updater < 1 / max_update_rate demo_updater"
    by (simp add: demo_updater_def demo_cloud_def)
  then have "now_check demo_cloud - last_update_time demo_updater \<le> 1 / max_update_rate demo_updater"
    by simp
  from rate_limited_frame_dropped [OF r this] r e show ?thesis
    by blast
qed

text \<open>
  C8. In a ray loop, an end point whose traversal fails leaves \<open>free_cells\<close> as it is and
  the loop goes on with the remaining end points; a traversal that succeeds has its keys
  inserted. The three loops together are one pass over the occupied, then the model,
  then the clip end points, and the free set they build is the union of the keys of the
  rays that could be traced.
\<close>

theorem free_cells_from_traced_rays:
  "(rays (keyToCoord t k) = None \<longrightarrow>
      trace_rays rays t (k # ks) free = trace_rays rays t ks free) \<and>
   (\<forall>key_ray. rays (keyToCoord t k) = Some key_ray \<longrightarrow>
      trace_rays rays t (k # ks) free = trace_rays rays t ks (keyset_insert_range key_ray free)) \<and>
   compute_free_cells rays t occupied_cells model_cells clip_cells =
     trace_rays rays t (occupied_cells @ model_cells @ clip_cells) [] \<and>
   set (compute_free_cells rays t occupied_cells model_cells clip_cells) =
     (\<Union>e \<in> set occupied_cells \<union> set model_cells \<union> set clip_cells. ray_contribution rays t e)"
proof -
  have order: "compute_free_cells rays t occupied_cells model_cells clip_cells =
     trace_rays rays t (occupied_cells @ model_cells @ clip_cells) []"
    by (simp add: compute_free_cells_def trace_rays_append)
  have "set (trace_rays rays t (occupied_cells @ model_cells @ clip_cells) []) =
     (\<Union>e \<in> set occupied_cells \<union> set model_cells \<union> set clip_cells. ray_contribution rays t e)"
    by (simp add: set_trace_rays Un_assoc)
  with order show ?thesis
    by simp
qed

theorem free_cells_from_traced_rays_witness:
  "demo_rays (keyToCoord fresh_tree (32766, 32768, 32768)) = None \<and>
   trace_rays demo_rays fresh_tree [(32766, 32768, 32768), (32768, 32768, 32768)] []
     = trace_rays demo_rays fresh_tree [(32768, 32768, 32768)] [] \<and>
   compute_free_cells demo_rays fresh_tree [(32768, 32768, 32768)] [] [(32766, 32768, 32768)]
     = [(32768, 32768, 32768), (32769, 32768, 32768)]"
proof -
  have n: "demo_rays (keyToCoord fresh_tree (32766, 32768, 32768)) = None"
    by (simp add: demo_keys demo_rays_def)
  have c: "trace_rays demo_rays fresh_tree
             ([(32768, 32768, 32768)] @ [] @ [(32766, 32768, 32768)]) []
           = [(32768, 32768, 32768), (32769, 32768, 32768)]"
    by (simp add: demo_keys demo_rays_def keyset_insert_def)
  from free_cells_from_traced_rays
         [of demo_rays fresh_tree "(32766, 32768, 32768)" "[(32768, 32768, 32768)]" "[]"
             "[(32768, 32768, 32768)]" "[]" "[(32766, 32768, 32768)]"]
       n c
  show ?thesis
    by simp
qed

text \<open>
  C9. The commit applies one and the same sequence of updates, with the same increments,
  to \<^verbatim>\<open>tree_\<close> and to \<^verbatim>\<open>frontier_tree_\<close>. Hence two trees that hold the same occupancy map
  (the same stored values, clamping range and increments) still hold the same occupancy
  map after any sequence of frames, whether a frame is processed or dropped. The state
  of the change tracker is not compared: it is armed on \<^verbatim>\<open>frontier_tree_\<close> only.
\<close>

theorem two_trees_stay_equal:
  "commit (t, ft) F O' M =
     (foldl apply_update t (commit_updates (clamping_thres_min t - clamping_thres_max t) F O' M),
      foldl apply_update ft (commit_updates (clamping_thres_min t - clamping_thres_max t) F O' M)) \<and>
   (same_occupancy (tree u) (frontier_tree u) \<longrightarrow>
      same_occupancy (tree (foldl cloudMsgCallback u cs))
                     (frontier_tree (foldl cloudMsgCallback u cs)))"
  by (simp add: commit_as_updates same_occupancy_frames)

theorem two_trees_stay_equal_witness:
  "same_occupancy (tree fresh_updater) (frontier_tree fresh_updater) \<and>
   same_occupancy (tree (foldl cloudMsgCallback fresh_updater [demo_cloud, demo_cloud]))
                  (frontier_tree (foldl cloudMsgCallback fresh_updater [demo_cloud, demo_cloud])) \<and>
   use_change_detection (frontier_tree (foldl cloudMsgCallback fresh_updater [demo_cloud, demo_cloud])) \<and>
   \<not> use_change_detection (tree (foldl cloudMsgCallback fresh_updater [demo_cloud, demo_cloud]))"
proof -
  have s: "same_occupancy (tree fresh_updater) (frontier_tree fresh_updater)"
    by (simp add: same_occupancy_def)
  let ?u1 = "fresh_updater\<lparr>map_frame := ''world''\<rparr>"
  let ?u2 = "process_cloud ?u1 demo_cloud"
  have cells1: "frame_cells ?u1 demo_cloud = ([(32769, 32768, 32768)], [(32768, 32768, 32768)], [])"
    by (rule demo_frame_cells) simp
  have "cloudMsgCallback ?u2 demo_cloud = process_cloud (?u2\<lparr>map_frame := ''world''\<rparr>) demo_cloud"
    using cloudMsgCallback_unlimited [of ?u2 demo_cloud] by simp
  then have two: "foldl cloudMsgCallback fresh_updater [demo_cloud, demo_cloud]
                    = process_cloud (?u2\<lparr>map_frame := ''world''\<rparr>) demo_cloud"
    by (simp add: demo_first_frame)
  obtain F O' M where cells2: "frame_cells (?u2\<lparr>map_frame := ''world''\<rparr>) demo_cloud = (F, O', M)"
    by (cases "frame_cells (?u2\<lparr>map_frame := ''world''\<rparr>) demo_cloud") auto
  have a: "use_change_detection (frontier_tree (process_cloud (?u2\<lparr>map_frame := ''world''\<rparr>) demo_cloud))"
    by (simp add: process_cloud_frontier_tree [OF cells2])
  have "\<not> use_change_detection (tree ?u2)"
    by (simp add: process_cloud_tree [OF cells1])
  then have b: "\<not> use_change_detection (tree (process_cloud (?u2\<lparr>map_frame := ''world''\<rparr>) demo_cloud))"
    by (simp add: process_cloud_tree [OF cells2])
  from two_trees_stay_equal [of demo_tree demo_tree "[]" "[]" "[]" fresh_updater "[demo_cloud, demo_cloud]"]
       s a b
  show ?thesis
    unfolding two by blast
qed

text \<open>
  C10. In the re-validation of \<^verbatim>\<open>mergeFrontier\<close>, a member of the persistent frontier set
  that has no node in the frontier tree is skipped: it is not put into the delete set and
  stays in the frontier set. A member whose voxel is OCCUPIED is put into the delete set
  and erased; it is absent from the merged set unless the new frontier passed in
  contains it, which the result of \<^verbatim>\<open>findFrontier\<close> on the same tree never does.
\<close>

theorem revalidation_keeps_unknown_drops_occupied:
  assumes "k \<in> set (frontier_cell u)"
  shows "(search (frontier_tree u) k = None \<longrightarrow>
            k \<notin> set (revalidate (frontier_tree u) (frontier_cell u) []) \<and>
            k \<in> set (frontier_cell (mergeFrontier u newFrontier))) \<and>
         (query (frontier_tree u) k = OCCUPIED \<longrightarrow>
            k \<in> set (revalidate (frontier_tree u) (frontier_cell u) []) \<and>
            (k \<notin> set newFrontier \<longrightarrow> k \<notin> set (frontier_cell (mergeFrontier u newFrontier))) \<and>
            k \<notin> set (frontier_cell (mergeFrontier u (findFrontier u))))"
proof (intro conjI impI)
  assume "search (frontier_tree u) k = None"
  then show "k \<notin> set (revalidate (frontier_tree u) (frontier_cell u) [])"
    by (simp add: revalidate_set)
  with assms show "k \<in> set (frontier_cell (mergeFrontier u newFrontier))"
    by (simp add: set_frontier_cell_mergeFrontier)
next
  assume occ: "query (frontier_tree u) k = OCCUPIED"
  then have np: "\<not> frontier_predicate (frontier_tree u) k"
    using frontier_predicate_not_occupied by fastforce
  from occ have "search (frontier_tree u) k \<noteq> None"
    by (auto simp: query_def split: option.splits)
  with np assms show del: "k \<in> set (revalidate (frontier_tree u) (frontier_cell u) [])"
    by (simp add: revalidate_set)
  then show "k \<notin> set (frontier_cell (mergeFrontier u newFrontier))" if "k \<notin> set newFrontier"
    using that by (simp add: set_frontier_cell_mergeFrontier)
  from np have "k \<notin> set (findFrontier u)"
    by (simp add: set_findFrontier)
  with del show "k \<notin> set (frontier_cell (mergeFrontier u (findFrontier u)))"
    by (simp add: set_frontier_cell_mergeFrontier)
qed

theorem revalidation_keeps_unknown_drops_occupied_witness:
  "search (frontier_tree demo_updater) (7, 7, 7) = None \<and>
   (7, 7, 7) \<in> set (frontier_cell
      (mergeFrontier (demo_updater\<lparr>frontier_cell := [(7, 7, 7), (50, 50, 50)]\<rparr>) [])) \<and>
   query (frontier_tree demo_updater) (50, 50, 50) = OCCUPIED \<and>
   (50, 50, 50) \<notin> set (frontier_cell
      (mergeFrontier (demo_updater\<lparr>frontier_cell := [(7, 7, 7), (50, 50, 50)]\<rparr>) []))"
proof -
  let ?u = "demo_updater\<lparr>frontier_cell := [(7, 7, 7), (50, 50, 50)]\<rparr>"
  have u: "search (frontier_tree ?u) (7, 7, 7) = None"
    by (simp add: demo_updater_def search_def)
  have o: "query (frontier_tree ?u) (50, 50, 50) = OCCUPIED"
    by (simp add: demo_updater_def query_def search_def isNodeOccupied_def)
  have m: "(7, 7, 7) \<in> set (frontier_cell ?u)" "(50, 50, 50) \<in> set (frontier_cell ?u)"
    by simp_all
  from revalidation_keeps_unknown_drops_occupied [OF m(1), of "[]"]
       revalidation_keeps_unknown_drops_occupied [OF m(2), of "[]"] u o
  show ?thesis
    by simp
qed

end
